theory Spec2Isabelle
  imports Main "HOL-Library.AList"
begin

section \<open>Strings\<close>

text \<open>
  A JavaScript string is modelled as a \<^typ>\<open>string\<close>, each \<^typ>\<open>char\<close> standing for one
  code unit in the range U+0000 .. U+00FF. The regular expression class \<^verbatim>\<open>\s\<close> and
  \<^verbatim>\<open>String.prototype.trim\<close> use the same set of white space characters; the ones
  below U+0100 are TAB, LF, VT, FF, CR, SPACE and NBSP.
\<close>

definition is_ws :: "char \<Rightarrow> bool" where
  "is_ws c = (c = CHR 0x09 \<or> c = CHR 0x0A \<or> c = CHR 0x0B \<or> c = CHR 0x0C \<or> c = CHR 0x0D
              \<or> c = CHR 0x20 \<or> c = CHR 0xA0)"

definition dquote :: char where
  "dquote = CHR 0x22"

definition squote :: char where
  "squote = CHR 0x27"

definition is_quote :: "char \<Rightarrow> bool" where
  "is_quote c = (c = dquote \<or> c = squote)"

text \<open>\<^verbatim>\<open>s.trim()\<close>\<close>

definition trim :: "string \<Rightarrow> string" where
  "trim s = rev (dropWhile is_ws (rev (dropWhile is_ws s)))"

text \<open>\<^verbatim>\<open>s.startsWith(c)\<close>, \<^verbatim>\<open>s.endsWith(c)\<close> and \<^verbatim>\<open>s.includes(c)\<close> for a one-character \<^verbatim>\<open>c\<close>\<close>

definition startsWith :: "char \<Rightarrow> string \<Rightarrow> bool" where
  "startsWith c s = (case s of [] \<Rightarrow> False | x # _ \<Rightarrow> x = c)"

definition endsWith :: "char \<Rightarrow> string \<Rightarrow> bool" where
  "endsWith c s = (case rev s of [] \<Rightarrow> False | x # _ \<Rightarrow> x = c)"

definition includesChar :: "char \<Rightarrow> string \<Rightarrow> bool" where
  "includesChar c s = (c \<in> set s)"

text \<open>\<^verbatim>\<open>s.split(c)\<close> for a one-character separator: never the empty array.\<close>

fun split_on :: "char \<Rightarrow> string \<Rightarrow> string list" where
  "split_on c [] = [[]]"
| "split_on c (x # xs) =
     (if x = c then [] # split_on c xs
      else (case split_on c xs of [] \<Rightarrow> [[x]] | p # ps \<Rightarrow> (x # p) # ps))"

text \<open>\<^verbatim>\<open>parts.join(sep)\<close>\<close>

fun join :: "string \<Rightarrow> string list \<Rightarrow> string" where
  "join sep [] = []"
| "join sep [x] = x"
| "join sep (x # y # ys) = x @ sep @ join sep (y # ys)"

section \<open>The annotation at the start of a text node\<close>

text \<open>
  \<^verbatim>\<open>const attributeRegex = /^{([^}]*)}/\<close>. \<^verbatim>\<open>value.match(attributeRegex)\<close> succeeds
  exactly when the value starts with an opening brace and a closing brace follows; the
  group captures everything up to the first closing brace. The model returns the
  captured group together with \<^verbatim>\<open>value.replace(attributeRegex, '')\<close>, the text after
  the match.
\<close>

definition matchAttribute :: "string \<Rightarrow> (string \<times> string) option" where
  "matchAttribute v =
     (case v of
        [] \<Rightarrow> None
      | c # r \<Rightarrow>
          if c = CHR ''{'' \<and> CHR ''}'' \<in> set r
          then Some (takeWhile (\<lambda>x. x \<noteq> CHR ''}'') r, tl (dropWhile (\<lambda>x. x \<noteq> CHR ''}'') r))
          else None)"

section \<open>Tokenizer\<close>

text \<open>
  \<^verbatim>\<open>attributeString.match(/(?:[^\s"']+|"[^"]*"|'[^']*')+/g) ?? []\<close>.
  \<open>match_piece\<close> is one round of the group: a longest run of characters that are
  neither white space nor quotes, or a double-quoted run, or a single-quoted run (a
  quoted run needs its closing quote). \<open>match_group\<close> is the greedy repetition; since
  nothing follows the group in the pattern, the first way through it is taken and there
  is no backtracking into an earlier round. \<open>tokenize\<close> is the global scan: a match
  is tried at the current position, and the scan moves one character forward where
  there is none.
\<close>

definition is_plain :: "char \<Rightarrow> bool" where
  "is_plain c = (\<not> is_ws c \<and> \<not> is_quote c)"

definition match_quoted :: "char \<Rightarrow> string \<Rightarrow> (string \<times> string) option" where
  "match_quoted q cs =
     (if q \<in> set cs
      then Some (q # takeWhile (\<lambda>x. x \<noteq> q) cs @ [q], tl (dropWhile (\<lambda>x. x \<noteq> q) cs))
      else None)"

definition match_piece :: "string \<Rightarrow> (string \<times> string) option" where
  "match_piece s =
     (case s of
        [] \<Rightarrow> None
      | c # cs \<Rightarrow>
          if is_plain c then Some (takeWhile is_plain s, dropWhile is_plain s)
          else if c = dquote then match_quoted dquote cs
          else if c = squote then match_quoted squote cs
          else None)"

lemma match_quoted_shorter:
  "match_quoted q cs = Some (p, r) \<Longrightarrow> length r < length cs"
proof -
  assume a: "match_quoted q cs = Some (p, r)"
  then have q: "q \<in> set cs" and r: "r = tl (dropWhile (\<lambda>x. x \<noteq> q) cs)"
    by (auto simp: match_quoted_def split: if_splits)
  from q have "dropWhile (\<lambda>x. x \<noteq> q) cs \<noteq> []" by auto
  then have "length r < length (dropWhile (\<lambda>x. x \<noteq> q) cs)"
    using r by (cases "dropWhile (\<lambda>x. x \<noteq> q) cs") auto
  also have "\<dots> \<le> length cs" by (rule length_dropWhile_le)
  finally show ?thesis .
qed

lemma match_piece_shorter:
  "match_piece s = Some (p, r) \<Longrightarrow> length r < length s"
proof (cases s)
  case Nil
  assume "match_piece s = Some (p, r)"
  with Nil show ?thesis by (simp add: match_piece_def)
next
  case (Cons c cs)
  assume a: "match_piece s = Some (p, r)"
  show ?thesis
  proof (cases "is_plain c")
    case True
    with a Cons have "r = dropWhile is_plain cs" by (simp add: match_piece_def)
    then have "length r \<le> length cs" by (simp add: length_dropWhile_le)
    with Cons show ?thesis by simp
  next
    case False
    with a Cons have "match_quoted dquote cs = Some (p, r) \<or> match_quoted squote cs = Some (p, r)"
      by (auto simp: match_piece_def split: if_splits)
    then have "length r < length cs" by (auto dest: match_quoted_shorter)
    with Cons show ?thesis by simp
  qed
qed

function match_group :: "string \<Rightarrow> string \<times> string" where
  "match_group s =
     (case match_piece s of
        None \<Rightarrow> ([], s)
      | Some (p, r) \<Rightarrow> (case match_group r of (t, r') \<Rightarrow> (p @ t, r')))"
  by pat_completeness auto
termination
  by (relation "measure length") (auto dest: match_piece_shorter)

declare match_group.simps [simp del]

lemma match_group_le: "length (snd (match_group s)) \<le> length s"
proof (induction s rule: match_group.induct)
  case (1 s)
  show ?case
  proof (cases "match_piece s")
    case None
    then show ?thesis by (simp add: match_group.simps [of s])
  next
    case (Some pr)
    obtain p r where pr: "pr = (p, r)" by (cases pr)
    from Some pr have "length (snd (match_group r)) \<le> length r"
      using "1.IH" by simp
    moreover from Some pr have "length r < length s" by (auto dest: match_piece_shorter)
    ultimately show ?thesis using Some pr
      by (auto simp: match_group.simps [of s] split: prod.splits)
  qed
qed

lemma match_group_token_shorter:
  assumes "match_group s = (t, r)" and "t \<noteq> []"
  shows "length r < length s"
proof (cases "match_piece s")
  case None
  with assms show ?thesis by (simp add: match_group.simps [of s])
next
  case (Some pr)
  obtain p r0 where pr: "pr = (p, r0)" by (cases pr)
  from Some pr have lt: "length r0 < length s" by (auto dest: match_piece_shorter)
  from assms(1) Some pr have "r = snd (match_group r0)"
    by (simp add: match_group.simps [of s] split: prod.splits)
  then have "length r \<le> length r0" by (simp add: match_group_le)
  with lt show ?thesis by simp
qed

function tokenize :: "string \<Rightarrow> string list" where
  "tokenize s =
     (if s = [] then []
      else (case match_group s of
              (t, r) \<Rightarrow> if t = [] then tokenize (tl s) else t # tokenize r))"
  by pat_completeness auto
termination
  by (relation "measure length") (auto dest: match_group_token_shorter [OF sym])

declare tokenize.simps [simp del]

section \<open>Token classifier and annotation parser\<close>

text \<open>
  \<^verbatim>\<open>interface ParsedAttributes { classes: string[]; id: string | null;
  attributes: Record<string, string> }\<close>. The attribute object is an association list in
  insertion order; \<^const>\<open>AList.update\<close> overwrites a key in place and appends a new one,
  as an assignment to a property of a JavaScript object does.
\<close>

record ParsedAttributes =
  classes :: "string list"
  id' :: "string option"
  attributes :: "(string \<times> string) list"

text \<open>\<^verbatim>\<open>valueParts.join('=').replace(/^["']|["']$/g, '')\<close>: the two alternatives of the
  pattern match independently, one at the first character and one at the last.\<close>

definition stripQuotes :: "string \<Rightarrow> string" where
  "stripQuotes v =
     (let v1 = (case v of [] \<Rightarrow> [] | c # cs \<Rightarrow> if is_quote c then cs else v)
      in (case rev v1 of [] \<Rightarrow> [] | c # cs \<Rightarrow> if is_quote c then rev cs else v1))"

text \<open>The test that ends the inner \<^verbatim>\<open>while\<close> loop of a CSS declaration.\<close>

definition startsNew :: "string \<Rightarrow> bool" where
  "startsNew nextToken =
     (startsWith (CHR ''.'') nextToken \<or> startsWith (CHR ''#'') nextToken
      \<or> (includesChar (CHR ''='') nextToken \<and> \<not> includesChar (CHR '':'') nextToken)
      \<or> includesChar (CHR '':'') nextToken)"

text \<open>The inner loop \<^verbatim>\<open>while (j < tokens.length) { ... cssDeclaration += ` ${nextToken}`; j++ }\<close>:
  the declaration so far and the tokens from position \<open>j\<close> on; it returns the
  declaration and the tokens that are left.\<close>

fun absorb :: "string \<Rightarrow> string list \<Rightarrow> string \<times> string list" where
  "absorb cssDeclaration [] = (cssDeclaration, [])"
| "absorb cssDeclaration (nextToken # rest) =
     (if startsNew nextToken then (cssDeclaration, nextToken # rest)
      else absorb (cssDeclaration @ '' '' @ nextToken) rest)"

lemma absorb_le: "length (snd (absorb d ts)) \<le> length ts"
  by (induction ts arbitrary: d) (auto intro: le_SucI)

text \<open>\<^verbatim>\<open>cssDeclaration = cssDeclaration.trim(); if (!cssDeclaration.endsWith(';')) cssDeclaration += ';'\<close>\<close>

definition finishDeclaration :: "string \<Rightarrow> string" where
  "finishDeclaration cssDeclaration =
     (let d = trim cssDeclaration in if endsWith (CHR '';'') d then d else d @ '';'')"

text \<open>The \<^verbatim>\<open>for\<close> loop of \<^verbatim>\<open>parseAttributes\<close> with its \<^verbatim>\<open>switch (true)\<close>: the tokens from
  position \<open>i\<close> on, \<^verbatim>\<open>result\<close> and \<^verbatim>\<open>cssProperties\<close>. A token that matches no case
  is skipped.\<close>

function classify :: "string list \<Rightarrow> ParsedAttributes \<Rightarrow> string list
    \<Rightarrow> ParsedAttributes \<times> string list" where
  "classify [] result cssProperties = (result, cssProperties)"
| "classify (token # rest) result cssProperties =
     (if startsWith (CHR ''.'') token then
        classify rest (result\<lparr>classes := classes result @ [tl token]\<rparr>) cssProperties
      else if startsWith (CHR ''#'') token then
        classify rest (result\<lparr>id' := Some (tl token)\<rparr>) cssProperties
      else if includesChar (CHR ''='') token \<and> \<not> includesChar (CHR '':'') token then
        (case split_on (CHR ''='') token of
           [] \<Rightarrow> classify rest result cssProperties
         | key # valueParts \<Rightarrow>
             classify rest
               (result\<lparr>attributes :=
                  AList.update key (stripQuotes (join ''='' valueParts)) (attributes result)\<rparr>)
               cssProperties)
      else if includesChar (CHR '':'') token then
        (case absorb token rest of
           (cssDeclaration, rest') \<Rightarrow>
             classify rest' result (cssProperties @ [finishDeclaration cssDeclaration]))
      else classify rest result cssProperties)"
  by pat_completeness auto
termination
proof (relation "measure (\<lambda>(ts, r, c). length ts)", goal_cases)
  case (6 token rest result cssProperties x y)
  then have "y = snd (absorb token rest)" by (metis snd_conv)
  then show ?case using absorb_le [of token rest] by simp
qed auto

definition emptyResult :: ParsedAttributes where
  "emptyResult = \<lparr>classes = [], id' = None, attributes = []\<rparr>"

definition parseAttributes :: "string \<Rightarrow> ParsedAttributes" where
  "parseAttributes attributeString =
     (let tokens = tokenize attributeString
      in (case classify tokens emptyResult [] of
            (result, cssProperties) \<Rightarrow>
              if length cssProperties > 0
              then result\<lparr>attributes :=
                     AList.update ''style'' (trim (join '' '' cssProperties)) (attributes result)\<rparr>
              else result))"

section \<open>The document tree\<close>

text \<open>
  The hast nodes the plugin meets. A property value is a string, an array of strings, a
  number, a boolean or \<^verbatim>\<open>null\<close>; an absent key is \<^verbatim>\<open>undefined\<close>. The property bag of an
  element is an association list in insertion order, and it may be missing altogether
  (the code writes \<^verbatim>\<open>element.properties ??= {}\<close>).
\<close>

datatype propval = PStr string | PArr "string list" | PNum int | PBool bool | PNull

type_synonym properties = "(string \<times> propval) list"

datatype node =
    Root "node list"
  | Element string "properties option" "node list"
  | Text string
  | Comment string

datatype error = TypeError

text \<open>\<^verbatim>\<open>'children' in parent\<close>, \<^verbatim>\<open>parent.children\<close> and \<^verbatim>\<open>node.type === 'element'\<close>\<close>

fun hasChildren :: "node \<Rightarrow> bool" where
  "hasChildren (Root cs) = True"
| "hasChildren (Element t ps cs) = True"
| "hasChildren n = False"

fun childrenOf :: "node \<Rightarrow> node list" where
  "childrenOf (Root cs) = cs"
| "childrenOf (Element t ps cs) = cs"
| "childrenOf n = []"

fun withChildren :: "node \<Rightarrow> node list \<Rightarrow> node" where
  "withChildren (Root cs) cs' = Root cs'"
| "withChildren (Element t ps cs) cs' = Element t ps cs'"
| "withChildren n cs' = n"

fun isElement :: "node \<Rightarrow> bool" where
  "isElement (Element t ps cs) = True"
| "isElement n = False"

fun propertiesOf :: "node \<Rightarrow> properties option" where
  "propertiesOf (Element t ps cs) = ps"
| "propertiesOf n = None"

fun withProperties :: "node \<Rightarrow> properties \<Rightarrow> node" where
  "withProperties (Element t ps cs) ps' = Element t (Some ps') cs"
| "withProperties n ps' = n"

text \<open>\<^verbatim>\<open>xs[i]\<close>: \<^verbatim>\<open>undefined\<close> out of range.\<close>

definition nth_opt :: "'a list \<Rightarrow> nat \<Rightarrow> 'a option" where
  "nth_opt xs i = (if i < length xs then Some (xs ! i) else None)"

text \<open>\<^verbatim>\<open>child?.type === 'element'\<close>\<close>

definition isElementOpt :: "node option \<Rightarrow> bool" where
  "isElementOpt c = (case c of None \<Rightarrow> False | Some n \<Rightarrow> isElement n)"

section \<open>Target resolver\<close>

text \<open>
  \<^verbatim>\<open>getTargetElement\<close> returns a reference to a node of the tree: the child at a
  position of the parent's child list, or the parent itself.
\<close>

datatype target = Child nat | Parent

definition getTargetElement :: "node \<Rightarrow> nat \<Rightarrow> target option" where
  "getTargetElement parent index =
     (let firstChild = nth_opt (childrenOf parent) 0
      in if index \<noteq> 0 \<and> length (childrenOf parent) > 0
            \<and> isElementOpt (nth_opt (childrenOf parent) (index - 1))
         then Some (Child (index - 1))
         else if isElementOpt firstChild \<and> length (childrenOf parent) = 1
         then Some (Child 0)
         else if isElement parent then Some Parent
         else None)"

section \<open>Attribute merger\<close>

text \<open>\<^verbatim>\<open>[...new Set(xs)]\<close>: a set keeps its members in the order of their first insertion.\<close>

definition setAdd :: "'a list \<Rightarrow> 'a \<Rightarrow> 'a list" where
  "setAdd acc x = (if x \<in> set acc then acc else acc @ [x])"

definition newSet :: "'a list \<Rightarrow> 'a list" where
  "newSet xs = foldl setAdd [] xs"

text \<open>\<^verbatim>\<open>Array.isArray(c) ? c : typeof c === 'string' ? c.split(' ').filter(Boolean) : []\<close>\<close>

definition existingClassArray :: "propval option \<Rightarrow> string list" where
  "existingClassArray existingClasses =
     (case existingClasses of
        Some (PArr a) \<Rightarrow> a
      | Some (PStr s) \<Rightarrow> filter (\<lambda>piece. piece \<noteq> []) (split_on (CHR '' '') s)
      | _ \<Rightarrow> [])"

text \<open>
  \<^verbatim>\<open>(element.properties.style as string) || ''\<close> followed by the computation of the
  separator: a falsy value gives the empty string, a non-empty string is itself, and any
  other value is truthy and has no \<^verbatim>\<open>endsWith\<close> method, so that the call throws a
  \<^verbatim>\<open>TypeError\<close>.
\<close>

definition existingStyleOf :: "propval option \<Rightarrow> error + string" where
  "existingStyleOf v =
     (case v of
        None \<Rightarrow> Inr []
      | Some (PStr s) \<Rightarrow> Inr s
      | Some PNull \<Rightarrow> Inr []
      | Some (PBool b) \<Rightarrow> if b then Inl TypeError else Inr []
      | Some (PNum n) \<Rightarrow> if n = 0 then Inr [] else Inl TypeError
      | Some (PArr a) \<Rightarrow> Inl TypeError)"

definition separator :: "string \<Rightarrow> string" where
  "separator existingStyle =
     (if existingStyle \<noteq> [] \<and> \<not> endsWith (CHR '';'') existingStyle then ''; ''
      else if existingStyle \<noteq> [] then '' '' else [])"

text \<open>The loop over \<^verbatim>\<open>Object.entries(attributes.attributes)\<close>. It returns the properties
  as they stand when the loop ends or throws, and the error if it threw.\<close>

fun applyEntries :: "properties \<Rightarrow> (string \<times> string) list \<Rightarrow> properties \<times> error option" where
  "applyEntries props [] = (props, None)"
| "applyEntries props ((key, v) # rest) =
     (if key = ''style'' then
        (case existingStyleOf (map_of props ''style'') of
           Inl e \<Rightarrow> (props, Some e)
         | Inr existingStyle \<Rightarrow>
             applyEntries
               (AList.update ''style'' (PStr (existingStyle @ separator existingStyle @ v)) props)
               rest)
      else applyEntries (AList.update key (PStr v) props) rest)"

definition applyClasses :: "properties \<Rightarrow> string list \<Rightarrow> properties" where
  "applyClasses props cls =
     (if length cls > 0
      then AList.update ''className''
             (PStr (join '' '' (newSet (existingClassArray (map_of props ''className'') @ cls)))) props
      else props)"

definition applyId :: "properties \<Rightarrow> string option \<Rightarrow> properties" where
  "applyId props i = (case i of None \<Rightarrow> props
                      | Some s \<Rightarrow> if s \<noteq> [] then AList.update ''id'' (PStr s) props else props)"

text \<open>\<^verbatim>\<open>applyAttributes(element, attributes)\<close>: the element after the call, and the error
  if the call threw.\<close>

definition applyAttributes :: "node \<Rightarrow> ParsedAttributes \<Rightarrow> node \<times> error option" where
  "applyAttributes element attrs =
     (let props0 = (case propertiesOf element of None \<Rightarrow> [] | Some ps \<Rightarrow> ps);
          props1 = applyClasses props0 (classes attrs);
          props2 = applyId props1 (id' attrs)
      in (case applyEntries props2 (attributes attrs) of
            (props3, err) \<Rightarrow> (withProperties element props3, err)))"

text \<open>\<^verbatim>\<open>targetElement.properties ??= {}; targetElement.properties.style = ''\<close>\<close>

definition setEmptyStyle :: "node \<Rightarrow> node" where
  "setEmptyStyle element =
     withProperties element
       (AList.update ''style'' (PStr [])
          (case propertiesOf element of None \<Rightarrow> [] | Some ps \<Rightarrow> ps))"

section \<open>The visitor\<close>

text \<open>
  \<^verbatim>\<open>visit(tree, 'text', onVisit)\<close> calls \<^verbatim>\<open>onVisit(node, index, parent)\<close> with
  \<^verbatim>\<open>node === parent.children[index]\<close>, a text node. The tree has no node twice, so
  \<^verbatim>\<open>parent.children.indexOf(node)\<close> is \<^verbatim>\<open>index\<close>. The model takes the node from the parent
  at \<^verbatim>\<open>index\<close>; it leaves the parent as it is when there is no text node at that place,
  which \<^verbatim>\<open>visit\<close> never does. Everything \<^verbatim>\<open>onVisit\<close> changes is in the parent: its child
  list, the text node, and the properties of the target. The result is the parent after
  the call, and the error if the call threw.
\<close>

text \<open>\<^verbatim>\<open>node.value = v; if (node.value === '') parent.children.splice(parent.children.indexOf(node), 1)\<close>\<close>

definition pruneText :: "node list \<Rightarrow> nat \<Rightarrow> string \<Rightarrow> node list" where
  "pruneText cs index v =
     (if v = [] then take index cs @ drop (Suc index) cs else cs[index := Text v])"

text \<open>The node a target refers to, and the parent with that node replaced. A target
  \<open>Child k\<close> comes from \<open>getTargetElement\<close>, which returns it for a position of the
  child list only.\<close>

definition targetNode :: "node \<Rightarrow> target \<Rightarrow> node" where
  "targetNode parent t = (case t of Parent \<Rightarrow> parent | Child k \<Rightarrow> childrenOf parent ! k)"

definition replaceTarget :: "node \<Rightarrow> target \<Rightarrow> node \<Rightarrow> node" where
  "replaceTarget parent t e =
     (case t of Parent \<Rightarrow> e | Child k \<Rightarrow> withChildren parent ((childrenOf parent)[k := e]))"

definition atTarget :: "target \<Rightarrow> (node \<Rightarrow> node \<times> error option) \<Rightarrow> node \<Rightarrow> node \<times> error option" where
  "atTarget t f parent =
     (case f (targetNode parent t) of (e, err) \<Rightarrow> (replaceTarget parent t e, err))"

definition onVisit :: "nat option \<Rightarrow> node option \<Rightarrow> node option \<times> error option" where
  "onVisit index parent =
     (case (index, parent) of
        (Some i, Some p) \<Rightarrow>
          if \<not> hasChildren p then (parent, None)
          else
            (case nth_opt (childrenOf p) i of
               Some (Text v) \<Rightarrow>
                 (case matchAttribute v of
                    None \<Rightarrow> (parent, None)
                  | Some (group1, replaced) \<Rightarrow>
                      (let attributeString = trim group1;
                           p1 = withChildren p (pruneText (childrenOf p) i (trim replaced))
                       in if attributeString = [] then
                            (case getTargetElement p1 i of
                               None \<Rightarrow> (Some p1, None)
                             | Some t \<Rightarrow>
                                 (case atTarget t (\<lambda>e. (setEmptyStyle e, None)) p1 of
                                    (p2, err) \<Rightarrow> (Some p2, err)))
                          else
                            (let parsedAttributes = parseAttributes attributeString
                             in (case getTargetElement p1 i of
                                   None \<Rightarrow> (Some p1, None)
                                 | Some t \<Rightarrow>
                                     (case atTarget t (\<lambda>e. applyAttributes e parsedAttributes) p1 of
                                        (p2, err) \<Rightarrow> (Some p2, err))))))
             | _ \<Rightarrow> (parent, None))
      | _ \<Rightarrow> (parent, None))"

subsection \<open>The earlier revision of the visitor\<close>

text \<open>
  \<^verbatim>\<open>src/index.ts\<close> holds an earlier revision of \<^verbatim>\<open>onVisit\<close>, from before classes, ids
  and attributes: the captured group goes into \<^verbatim>\<open>style\<close> as it is, with
  \<^verbatim>\<open>{ ...properties, style: extractedStyle }\<close>, and the first child is the target
  whenever it is an element. It throws nowhere.
\<close>

definition setStyle :: "string \<Rightarrow> node \<Rightarrow> node" where
  "setStyle extractedStyle element =
     withProperties element
       (AList.update ''style'' (PStr extractedStyle)
          (case propertiesOf element of None \<Rightarrow> [] | Some ps \<Rightarrow> ps))"

definition onVisit_v1 :: "nat option \<Rightarrow> node option \<Rightarrow> node option" where
  "onVisit_v1 index parent =
     (case (index, parent) of
        (Some i, Some p) \<Rightarrow>
          if \<not> hasChildren p then parent
          else
            (case nth_opt (childrenOf p) i of
               Some (Text v) \<Rightarrow>
                 (case matchAttribute v of
                    None \<Rightarrow> parent
                  | Some (extractedStyle, replaced) \<Rightarrow>
                      (let p1 = withChildren p (pruneText (childrenOf p) i (trim replaced));
                           firstChild = nth_opt (childrenOf p1) 0
                       in if i \<noteq> 0 \<and> length (childrenOf p1) > 0
                             \<and> isElementOpt (nth_opt (childrenOf p1) (i - 1))
                          then Some (replaceTarget p1 (Child (i - 1))
                                 (setStyle extractedStyle (targetNode p1 (Child (i - 1)))))
                          else if isElementOpt firstChild
                          then Some (replaceTarget p1 (Child 0)
                                 (setStyle extractedStyle (targetNode p1 (Child 0))))
                          else if isElement p1 then Some (setStyle extractedStyle p1)
                          else Some p1))
             | _ \<Rightarrow> parent)
      | _ \<Rightarrow> parent)"

section \<open>Notions of the specification\<close>

text \<open>The shape of a node: the node without the properties an element carries. Two child
  lists of the same shape have the same nodes in the same order, up to properties.\<close>

fun eraseProperties :: "node \<Rightarrow> node" where
  "eraseProperties (Element t ps cs) = Element t None cs"
| "eraseProperties n = n"

text \<open>A token that a CSS declaration absorbs: it starts no class and no id, is no
  attribute token (an \<^verbatim>\<open>=\<close> without a \<^verbatim>\<open>:\<close>), and has no \<^verbatim>\<open>:\<close>.\<close>

definition absorbable :: "string \<Rightarrow> bool" where
  "absorbable t =
     (\<not> startsWith (CHR ''.'') t \<and> \<not> startsWith (CHR ''#'') t
      \<and> \<not> (includesChar (CHR ''='') t \<and> \<not> includesChar (CHR '':'') t)
      \<and> \<not> includesChar (CHR '':'') t)"

text \<open>A declaration with a semicolon appended exactly when it does not end with one.\<close>

definition withSemicolon :: "string \<Rightarrow> string" where
  "withSemicolon d = (if d \<noteq> [] \<and> last d = CHR '';'' then d else d @ '';'')"


text \<open>A list without its duplicates, each member at the place of its first occurrence.\<close>

fun dedupFirst :: "'a list \<Rightarrow> 'a list" where
  "dedupFirst [] = []"
| "dedupFirst (x # xs) = x # dedupFirst (filter (\<lambda>y. y \<noteq> x) xs)"

text \<open>A string split at every character that satisfies a predicate, and the existing
  class value as a list in the two readings: split on white space, and split on the
  space character only; empty pieces dropped in both.\<close>

fun split_where :: "(char \<Rightarrow> bool) \<Rightarrow> string \<Rightarrow> string list" where
  "split_where P [] = [[]]"
| "split_where P (x # xs) =
     (if P x then [] # split_where P xs
      else (case split_where P xs of [] \<Rightarrow> [[x]] | p # ps \<Rightarrow> (x # p) # ps))"

definition classList :: "(char \<Rightarrow> bool) \<Rightarrow> propval option \<Rightarrow> string list" where
  "classList P existing =
     (case existing of
        None \<Rightarrow> []
      | Some (PArr a) \<Rightarrow> a
      | Some (PStr s) \<Rightarrow> filter (\<lambda>piece. piece \<noteq> []) (split_where P s)
      | Some other \<Rightarrow> [])"

definition mergedClasses :: "(char \<Rightarrow> bool) \<Rightarrow> propval option \<Rightarrow> string list \<Rightarrow> string" where
  "mergedClasses P existing parsed = join '' '' (dedupFirst (classList P existing @ parsed))"



section \<open>Properties of the annotation match\<close>

lemma takeWhile_upto: "c \<notin> set xs \<Longrightarrow> takeWhile (\<lambda>x. x \<noteq> c) (xs @ c # ys) = xs"
  by (induction xs) auto

lemma dropWhile_upto: "c \<notin> set xs \<Longrightarrow> dropWhile (\<lambda>x. x \<noteq> c) (xs @ c # ys) = c # ys"
  by (induction xs) auto

lemma matchAttribute_Some:
  "CHR ''}'' \<notin> set body \<Longrightarrow>
   matchAttribute (CHR ''{'' # body @ CHR ''}'' # rest) = Some (body, rest)"
  by (simp add: matchAttribute_def takeWhile_upto dropWhile_upto)

lemma matchAttribute_None_iff:
  "matchAttribute v = None \<longleftrightarrow> \<not> (\<exists>body rest. v = CHR ''{'' # body @ CHR ''}'' # rest)"
  by (cases v) (auto simp: matchAttribute_def split_list)

section \<open>Properties of the visitor\<close>

lemma nth_opt_hasChildren: "nth_opt (childrenOf p) i = Some c \<Longrightarrow> hasChildren p"
  by (cases p) (auto simp: nth_opt_def)

lemma onVisit_match:
  assumes "nth_opt (childrenOf p) i = Some (Text v)"
    and "matchAttribute v = Some (g, r)"
  shows "onVisit (Some i) (Some p) =
     (let p1 = withChildren p (pruneText (childrenOf p) i (trim r))
      in (case getTargetElement p1 i of
            None \<Rightarrow> (Some p1, None)
          | Some t \<Rightarrow>
              (case atTarget t (if trim g = [] then (\<lambda>e. (setEmptyStyle e, None))
                                else (\<lambda>e. applyAttributes e (parseAttributes (trim g)))) p1 of
                 (p2, err) \<Rightarrow> (Some p2, err))))"
  using assms nth_opt_hasChildren [OF assms(1)] by (simp add: onVisit_def Let_def)

text \<open>
  Claim C2. A text node whose value does not start with an opening brace that a closing
  brace follows later in the string (the annotation stands in the middle of the text, the
  opening brace is never closed, or there is no brace at all) is left alone: the visit
  returns the parent as it was, with every value, every node and every property in
  place, and it does not throw.
\<close>

theorem onVisit_no_annotation:
  assumes "nth_opt (childrenOf p) i = Some (Text v)"
    and "\<not> (\<exists>body rest. v = CHR ''{'' # body @ CHR ''}'' # rest)"
  shows "onVisit (Some i) (Some p) = (Some p, None)"
proof -
  from assms(2) have "matchAttribute v = None" by (simp add: matchAttribute_None_iff)
  with assms(1) show ?thesis by (simp add: onVisit_def)
qed

theorem onVisit_no_annotation_witness:
  "nth_opt (childrenOf (Element ''p'' (Some []) [Text ''Some text {color: red;} in the middle''])) 0
     = Some (Text ''Some text {color: red;} in the middle'')
   \<and> \<not> (\<exists>body rest. ''Some text {color: red;} in the middle'' = CHR ''{'' # body @ CHR ''}'' # rest)
   \<and> onVisit (Some 0) (Some (Element ''p'' (Some []) [Text ''Some text {color: red;} in the middle'']))
     = (Some (Element ''p'' (Some []) [Text ''Some text {color: red;} in the middle'']), None)
   \<and> nth_opt (childrenOf (Element ''p'' (Some []) [Text ''{color: red; font-weight: bold''])) 0
     = Some (Text ''{color: red; font-weight: bold'')
   \<and> \<not> (\<exists>body rest. ''{color: red; font-weight: bold'' = CHR ''{'' # body @ CHR ''}'' # rest)
   \<and> onVisit (Some 0) (Some (Element ''p'' (Some []) [Text ''{color: red; font-weight: bold'']))
     = (Some (Element ''p'' (Some []) [Text ''{color: red; font-weight: bold'']), None)"
proof -
  have a1: "nth_opt (childrenOf (Element ''p'' (Some []) [Text ''Some text {color: red;} in the middle''])) 0
     = Some (Text ''Some text {color: red;} in the middle'')"
    by (simp add: nth_opt_def)
  have a2: "\<not> (\<exists>body rest. ''Some text {color: red;} in the middle'' = CHR ''{'' # body @ CHR ''}'' # rest)"
    by simp
  have b1: "nth_opt (childrenOf (Element ''p'' (Some []) [Text ''{color: red; font-weight: bold''])) 0
     = Some (Text ''{color: red; font-weight: bold'')"
    by (simp add: nth_opt_def)
  have "matchAttribute ''{color: red; font-weight: bold'' = None"
    by (simp add: matchAttribute_def)
  then have b2: "\<not> (\<exists>body rest. ''{color: red; font-weight: bold'' = CHR ''{'' # body @ CHR ''}'' # rest)"
    using matchAttribute_None_iff by blast
  show ?thesis
    using a1 a2 b1 b2 onVisit_no_annotation [OF a1 a2] onVisit_no_annotation [OF b1 b2]
    by (intro conjI)
qed

text \<open>The earlier revision does the same.\<close>

lemma onVisit_v1_no_annotation:
  assumes "nth_opt (childrenOf p) i = Some (Text v)"
    and "\<not> (\<exists>body rest. v = CHR ''{'' # body @ CHR ''}'' # rest)"
  shows "onVisit_v1 (Some i) (Some p) = Some p"
proof -
  from assms(2) have "matchAttribute v = None" by (simp add: matchAttribute_None_iff)
  with assms(1) show ?thesis by (simp add: onVisit_v1_def)
qed

lemma childrenOf_withChildren: "hasChildren p \<Longrightarrow> childrenOf (withChildren p cs) = cs"
  by (cases p) auto

lemma hasChildren_withChildren: "hasChildren (withChildren p cs) = hasChildren p"
  by (cases p) auto

lemma isElement_withChildren: "isElement (withChildren p cs) = isElement p"
  by (cases p) auto

lemma withChildren_withChildren: "withChildren (withChildren p cs) cs' = withChildren p cs'"
  by (cases p) auto

lemma childrenOf_withProperties: "childrenOf (withProperties e ps) = childrenOf e"
  by (cases e) auto

lemma eraseProperties_withProperties: "eraseProperties (withProperties e ps) = eraseProperties e"
  by (cases e) auto

lemma applyAttributes_withProperties:
  "\<exists>ps' err. applyAttributes e a = (withProperties e ps', err)"
  by (auto simp: applyAttributes_def Let_def split: prod.splits)

lemma getTargetElement_rules:
  assumes "hasChildren p"
  shows "getTargetElement (withChildren p cs) i =
     (if i > 0 \<and> isElementOpt (nth_opt cs (i - 1)) then Some (Child (i - 1))
      else if isElementOpt (nth_opt cs 0) \<and> length cs = 1 then Some (Child 0)
      else if isElement p then Some Parent
      else None)"
proof -
  have "isElementOpt (nth_opt cs (i - 1)) \<Longrightarrow> length cs > 0"
    by (cases cs) (auto simp: isElementOpt_def nth_opt_def)
  then show ?thesis using assms
    by (auto simp: getTargetElement_def childrenOf_withChildren isElement_withChildren Let_def)
qed

text \<open>
  Claim C1. A visit of a text node with a matched annotation resolves its target by
  these rules, the first that applies winning, on the child list as it stands after the
  text node was rewritten or spliced out: (1) the original index is greater than 0 and
  the child at the original index minus one is an element: that child; (2) the first
  child is an element and the child list has exactly one entry: that child; (3) the
  parent is an element: the parent; (4) otherwise there is no target and the parent keeps
  only the change of its child list. The change made at the target is the empty style for
  empty braces and the merge of the parsed annotation otherwise.
\<close>

theorem onVisit_target_rules:
  assumes "nth_opt (childrenOf p) i = Some (Text (CHR ''{'' # body @ CHR ''}'' # rest))"
    and "CHR ''}'' \<notin> set body"
  shows "onVisit (Some i) (Some p) =
     (let cs' = (if trim rest = [] then take i (childrenOf p) @ drop (Suc i) (childrenOf p)
                 else (childrenOf p)[i := Text (trim rest)]);
          change = (if trim body = [] then (\<lambda>e. (setEmptyStyle e, None))
                    else (\<lambda>e. applyAttributes e (parseAttributes (trim body))))
      in if i > 0 \<and> isElementOpt (nth_opt cs' (i - 1))
         then (case change (cs' ! (i - 1)) of
                 (e, err) \<Rightarrow> (Some (withChildren p (cs'[i - 1 := e])), err))
         else if isElementOpt (nth_opt cs' 0) \<and> length cs' = 1
         then (case change (cs' ! 0) of
                 (e, err) \<Rightarrow> (Some (withChildren p (cs'[0 := e])), err))
         else if isElement p
         then (case change (withChildren p cs') of (e, err) \<Rightarrow> (Some e, err))
         else (Some (withChildren p cs'), None))"
proof -
  have hc: "hasChildren p" using assms(1) by (rule nth_opt_hasChildren)
  have m: "matchAttribute (CHR ''{'' # body @ CHR ''}'' # rest) = Some (body, rest)"
    using assms(2) by (rule matchAttribute_Some)
  show ?thesis
    unfolding onVisit_match [OF assms(1) m] pruneText_def [symmetric]
    by (simp add: Let_def getTargetElement_rules [OF hc] atTarget_def targetNode_def
        replaceTarget_def childrenOf_withChildren [OF hc] withChildren_withChildren
        split: prod.splits)
qed

text \<open>
  Claim C10. When the annotation matches and the resolver finds no target, the text is
  still rewritten: the annotation is stripped, the rest is trimmed, and the node is
  spliced out if nothing remains. The parent and all other children stay as they are, so
  the parsed classes, id, attributes and style are applied nowhere; the visit does not
  throw.
\<close>

theorem onVisit_no_target:
  assumes "nth_opt (childrenOf p) i = Some (Text (CHR ''{'' # body @ CHR ''}'' # rest))"
    and "CHR ''}'' \<notin> set body"
    and "getTargetElement
           (withChildren p (if trim rest = [] then take i (childrenOf p) @ drop (Suc i) (childrenOf p)
                            else (childrenOf p)[i := Text (trim rest)])) i = None"
  shows "onVisit (Some i) (Some p) =
     (Some (withChildren p (if trim rest = [] then take i (childrenOf p) @ drop (Suc i) (childrenOf p)
                            else (childrenOf p)[i := Text (trim rest)])), None)"
proof -
  have m: "matchAttribute (CHR ''{'' # body @ CHR ''}'' # rest) = Some (body, rest)"
    using assms(2) by (rule matchAttribute_Some)
  show ?thesis
    using assms(3) unfolding onVisit_match [OF assms(1) m] pruneText_def [symmetric]
    by (simp add: Let_def)
qed


theorem onVisit_target_rules_witness:
  "nth_opt (childrenOf (Element ''p'' (Some [])
       [Element ''strong'' (Some []) [Text ''Important text''],
        Text (CHR ''{'' # ''color: red; font-weight: 900;'' @ CHR ''}'' # '' that needs attention'')])) 1
     = Some (Text (CHR ''{'' # ''color: red; font-weight: 900;'' @ CHR ''}'' # '' that needs attention''))
   \<and> CHR ''}'' \<notin> set ''color: red; font-weight: 900;''
   \<and> onVisit (Some 1) (Some (Element ''p'' (Some [])
       [Element ''strong'' (Some []) [Text ''Important text''],
        Text (CHR ''{'' # ''color: red; font-weight: 900;'' @ CHR ''}'' # '' that needs attention'')]))
     = (Some (Element ''p'' (Some [])
         [Element ''strong'' (Some [(''style'', PStr ''color: red; font-weight: 900;'')])
            [Text ''Important text''],
          Text ''that needs attention'']), None)"
proof -
  have h1: "nth_opt (childrenOf (Element ''p'' (Some [])
       [Element ''strong'' (Some []) [Text ''Important text''],
        Text (CHR ''{'' # ''color: red; font-weight: 900;'' @ CHR ''}'' # '' that needs attention'')])) 1
     = Some (Text (CHR ''{'' # ''color: red; font-weight: 900;'' @ CHR ''}'' # '' that needs attention''))"
    by (simp add: nth_opt_def)
  have h2: "CHR ''}'' \<notin> set ''color: red; font-weight: 900;''" by simp
  have t1: "trim '' that needs attention'' = ''that needs attention''" by code_simp
  have t2: "trim ''color: red; font-weight: 900;'' = ''color: red; font-weight: 900;''" by code_simp
  have pa: "applyAttributes (Element ''strong'' (Some []) [Text ''Important text''])
              (parseAttributes ''color: red; font-weight: 900;'')
            = (Element ''strong'' (Some [(''style'', PStr ''color: red; font-weight: 900;'')])
                 [Text ''Important text''], None)"
    by code_simp
  show ?thesis
    using h1 h2 onVisit_target_rules [OF h1 h2]
    by (simp add: t1 t2 pa isElementOpt_def nth_opt_def)
qed


text \<open>The earlier revision has no test of the length of the child list in its second
  rule: with an element first and a text node before the annotated one, it styles the
  first child where \<open>onVisit\<close> styles the parent.\<close>

lemma onVisit_v1_first_child:
  "onVisit_v1 (Some 2) (Some (Element ''p'' (Some [])
       [Element ''b'' None [], Text ''x'', Text ''{color: red}y'']))
     = Some (Element ''p'' (Some [])
         [Element ''b'' (Some [(''style'', PStr ''color: red'')]) [], Text ''x'', Text ''y''])
   \<and> onVisit (Some 2) (Some (Element ''p'' (Some [])
       [Element ''b'' None [], Text ''x'', Text ''{color: red}y'']))
     = (Some (Element ''p'' (Some [(''style'', PStr ''color: red;'')])
         [Element ''b'' None [], Text ''x'', Text ''y'']), None)"
  by code_simp

theorem onVisit_no_target_witness:
  "nth_opt (childrenOf (Root [Text (CHR ''{'' # ''.a #b k=v c: d'' @ CHR ''}'' # ''x'')])) 0
     = Some (Text (CHR ''{'' # ''.a #b k=v c: d'' @ CHR ''}'' # ''x''))
   \<and> CHR ''}'' \<notin> set ''.a #b k=v c: d''
   \<and> getTargetElement (withChildren (Root [Text (CHR ''{'' # ''.a #b k=v c: d'' @ CHR ''}'' # ''x'')])
         [Text ''x'']) 0 = None
   \<and> onVisit (Some 0) (Some (Root [Text (CHR ''{'' # ''.a #b k=v c: d'' @ CHR ''}'' # ''x'')]))
     = (Some (Root [Text ''x'']), None)"
proof -
  have h1: "nth_opt (childrenOf (Root [Text (CHR ''{'' # ''.a #b k=v c: d'' @ CHR ''}'' # ''x'')])) 0
     = Some (Text (CHR ''{'' # ''.a #b k=v c: d'' @ CHR ''}'' # ''x''))"
    by (simp add: nth_opt_def)
  have h2: "CHR ''}'' \<notin> set ''.a #b k=v c: d''" by simp
  have t1: "trim ''x'' = ''x''" by code_simp
  have h3: "getTargetElement
           (withChildren (Root [Text (CHR ''{'' # ''.a #b k=v c: d'' @ CHR ''}'' # ''x'')])
              (if trim ''x'' = []
               then take 0 (childrenOf (Root [Text (CHR ''{'' # ''.a #b k=v c: d'' @ CHR ''}'' # ''x'')]))
                    @ drop (Suc 0) (childrenOf (Root [Text (CHR ''{'' # ''.a #b k=v c: d'' @ CHR ''}'' # ''x'')]))
               else (childrenOf (Root [Text (CHR ''{'' # ''.a #b k=v c: d'' @ CHR ''}'' # ''x'')]))
                    [0 := Text (trim ''x'')])) 0 = None"
    by (simp add: t1 getTargetElement_def isElementOpt_def nth_opt_def)
  show ?thesis
    using h1 h2 h3 onVisit_no_target [OF h1 h2 h3]
    by (simp add: t1)
qed

lemma length_trim_le: "length (trim s) \<le> length s"
proof -
  have "length (trim s) \<le> length (dropWhile is_ws s)"
    unfolding trim_def using length_dropWhile_le [of is_ws "rev (dropWhile is_ws s)"] by simp
  also have "\<dots> \<le> length s" by (rule length_dropWhile_le)
  finally show ?thesis .
qed

lemma map_erase_update:
  "eraseProperties y = eraseProperties (xs ! k) \<Longrightarrow>
   map eraseProperties (xs[k := y]) = map eraseProperties xs"
  by (cases "k < length xs") (simp_all add: map_update list_update_same_conv list_update_beyond)

lemma setEmptyStyle_withProperties:
  "setEmptyStyle e = withProperties e
     (AList.update ''style'' (PStr []) (case propertiesOf e of None \<Rightarrow> [] | Some ps \<Rightarrow> ps))"
  by (simp add: setEmptyStyle_def)

lemma atTarget_shape:
  assumes "hasChildren p1" and "\<And>e. \<exists>ps' err. f e = (withProperties e ps', err)"
  shows "\<exists>q err. atTarget t f p1 = (q, err)
           \<and> map eraseProperties (childrenOf q) = map eraseProperties (childrenOf p1)"
proof (cases t)
  case Parent
  obtain ps' err where "f p1 = (withProperties p1 ps', err)" using assms(2) by blast
  with Parent show ?thesis
    by (simp add: atTarget_def targetNode_def replaceTarget_def childrenOf_withProperties)
next
  case (Child k)
  obtain ps' err where "f (childrenOf p1 ! k) = (withProperties (childrenOf p1 ! k) ps', err)"
    using assms(2) by blast
  with Child assms(1) show ?thesis
    by (simp add: atTarget_def targetNode_def replaceTarget_def childrenOf_withChildren
        map_erase_update eraseProperties_withProperties)
qed

lemma onVisit_shape:
  assumes "nth_opt (childrenOf p) i = Some (Text v)" and "matchAttribute v = Some (g, r)"
  shows "\<exists>q err. onVisit (Some i) (Some p) = (Some q, err)
           \<and> map eraseProperties (childrenOf q)
             = map eraseProperties (pruneText (childrenOf p) i (trim r))"
proof -
  have hc: "hasChildren p" using assms(1) by (rule nth_opt_hasChildren)
  define p1 where "p1 = withChildren p (pruneText (childrenOf p) i (trim r))"
  define f where "f = (if trim g = [] then (\<lambda>e. (setEmptyStyle e, None :: error option))
                       else (\<lambda>e. applyAttributes e (parseAttributes (trim g))))"
  have hc1: "hasChildren p1" using hc by (simp add: p1_def hasChildren_withChildren)
  have c1: "childrenOf p1 = pruneText (childrenOf p) i (trim r)"
    using hc by (simp add: p1_def childrenOf_withChildren)
  have f: "\<exists>ps' err. f e = (withProperties e ps', err)" for e
    using applyAttributes_withProperties [of e "parseAttributes (trim g)"]
    by (auto simp: f_def setEmptyStyle_withProperties)
  have eq: "onVisit (Some i) (Some p) =
      (case getTargetElement p1 i of None \<Rightarrow> (Some p1, None)
       | Some t \<Rightarrow> (case atTarget t f p1 of (p2, err) \<Rightarrow> (Some p2, err)))"
    unfolding onVisit_match [OF assms] p1_def f_def by (simp add: Let_def)
  show ?thesis
  proof (cases "getTargetElement p1 i")
    case None
    with eq c1 show ?thesis by simp
  next
    case (Some t)
    obtain q err where "atTarget t f p1 = (q, err)"
      and "map eraseProperties (childrenOf q) = map eraseProperties (childrenOf p1)"
      using atTarget_shape [OF hc1 f, of t] by blast
    with eq Some c1 show ?thesis by simp
  qed
qed

text \<open>
  Claim C8. A visit of a text node with a matched annotation gives the node the text
  after the annotation, trimmed at both ends, and splices the node out of the child list
  of its parent exactly when that text is empty. Up to the properties of elements, the
  child list after the visit is the child list before it with that one change: no other
  node is removed, added or moved.
\<close>

theorem onVisit_text_pruned:
  assumes "nth_opt (childrenOf p) i = Some (Text (CHR ''{'' # body @ CHR ''}'' # rest))"
    and "CHR ''}'' \<notin> set body"
  shows "\<exists>q err. onVisit (Some i) (Some p) = (Some q, err)
           \<and> map eraseProperties (childrenOf q)
             = map eraseProperties
                 (if trim rest = [] then take i (childrenOf p) @ drop (Suc i) (childrenOf p)
                  else (childrenOf p)[i := Text (trim rest)])"
  using onVisit_shape [OF assms(1) matchAttribute_Some [OF assms(2)]]
  by (simp add: pruneText_def)

lemma pruneText_shape_differs:
  assumes "nth_opt cs i = Some (Text v)" and "length w < length v"
  shows "map eraseProperties (pruneText cs i w) \<noteq> map eraseProperties cs"
proof (cases "w = []")
  case True
  from assms(1) have "i < length cs" by (simp add: nth_opt_def split: if_splits)
  then have "length (pruneText cs i w) < length cs" using True by (simp add: pruneText_def)
  then show ?thesis by (metis length_map less_irrefl)
next
  case False
  from assms(1) have i: "i < length cs" and v: "cs ! i = Text v"
    by (simp_all add: nth_opt_def split: if_splits)
  have "map eraseProperties (pruneText cs i w) ! i = Text w"
    using False i by (simp add: pruneText_def)
  moreover have "map eraseProperties cs ! i = Text v" using i v by simp
  moreover have "w \<noteq> v" using assms(2) by auto
  ultimately show ?thesis by auto
qed

text \<open>
  Claim C7. Empty braces, or braces around white space only, are an annotation: the
  visit strips it from the text as for any other annotation and does not throw, and the
  target, when there is one, gets the empty string as its style in place of whatever
  style it had, all its other properties kept. The parent after the visit is never the
  parent before it, unlike the visit of a text node without annotation.
\<close>

theorem onVisit_empty_braces:
  assumes "nth_opt (childrenOf p) i = Some (Text (CHR ''{'' # body @ CHR ''}'' # rest))"
    and "CHR ''}'' \<notin> set body"
    and "trim body = []"
  shows "\<exists>q. onVisit (Some i) (Some p) = (Some q, None) \<and> q \<noteq> p
           \<and> (let p1 = withChildren p
                         (if trim rest = [] then take i (childrenOf p) @ drop (Suc i) (childrenOf p)
                          else (childrenOf p)[i := Text (trim rest)])
              in (case getTargetElement p1 i of
                    None \<Rightarrow> q = p1
                  | Some t \<Rightarrow>
                      (\<exists>ps'. q = replaceTarget p1 t (withProperties (targetNode p1 t) ps')
                         \<and> map_of ps'
                           = (map_of (case propertiesOf (targetNode p1 t) of
                                        None \<Rightarrow> [] | Some ps \<Rightarrow> ps))(''style'' \<mapsto> PStr []))))"
proof -
  let ?v = "CHR ''{'' # body @ CHR ''}'' # rest"
  have m: "matchAttribute ?v = Some (body, rest)" using assms(2) by (rule matchAttribute_Some)
  define p1 where "p1 = withChildren p (pruneText (childrenOf p) i (trim rest))"
  have eq: "onVisit (Some i) (Some p) =
      (case getTargetElement p1 i of None \<Rightarrow> (Some p1, None)
       | Some t \<Rightarrow> (Some (replaceTarget p1 t (setEmptyStyle (targetNode p1 t))), None))"
    unfolding onVisit_match [OF assms(1) m] p1_def
    by (simp add: Let_def assms(3) atTarget_def split: option.splits)
  obtain q err where q: "onVisit (Some i) (Some p) = (Some q, err)"
    and sh: "map eraseProperties (childrenOf q)
             = map eraseProperties (pruneText (childrenOf p) i (trim rest))"
    using onVisit_shape [OF assms(1) m] by blast
  have "length (trim rest) < length ?v"
    using length_trim_le [of rest] by simp
  then have "map eraseProperties (pruneText (childrenOf p) i (trim rest))
             \<noteq> map eraseProperties (childrenOf p)"
    using pruneText_shape_differs [OF assms(1)] by blast
  with sh have ne: "q \<noteq> p" by auto
  have err: "err = None" using q eq by (auto split: option.splits)
  have p1': "p1 = withChildren p
                (if trim rest = [] then take i (childrenOf p) @ drop (Suc i) (childrenOf p)
                 else (childrenOf p)[i := Text (trim rest)])"
    by (simp add: p1_def pruneText_def)
  show ?thesis
  proof (cases "getTargetElement p1 i")
    case None
    with q eq err ne show ?thesis unfolding p1' [symmetric] by (auto simp: Let_def)
  next
    case (Some t)
    with q eq have "q = replaceTarget p1 t (setEmptyStyle (targetNode p1 t))" by simp
    then have "\<exists>ps'. q = replaceTarget p1 t (withProperties (targetNode p1 t) ps')
        \<and> map_of ps' = (map_of (case propertiesOf (targetNode p1 t) of
                                   None \<Rightarrow> [] | Some ps \<Rightarrow> ps))(''style'' \<mapsto> PStr [])"
      unfolding setEmptyStyle_withProperties by (metis update_conv')
    with q err ne Some show ?thesis unfolding p1' [symmetric] by (auto simp: Let_def)
  qed
qed


theorem onVisit_text_pruned_witness:
  "nth_opt (childrenOf (Element ''div'' (Some [])
       [Text (CHR ''{'' # ''margin: 10px;'' @ CHR ''}'' # ''   '')])) 0
     = Some (Text (CHR ''{'' # ''margin: 10px;'' @ CHR ''}'' # ''   ''))
   \<and> CHR ''}'' \<notin> set ''margin: 10px;''
   \<and> onVisit (Some 0) (Some (Element ''div'' (Some [])
       [Text (CHR ''{'' # ''margin: 10px;'' @ CHR ''}'' # ''   '')]))
     = (Some (Element ''div'' (Some [(''style'', PStr ''margin: 10px;'')]) []), None)
   \<and> (\<exists>q err. onVisit (Some 0) (Some (Element ''div'' (Some [])
                    [Text (CHR ''{'' # ''margin: 10px;'' @ CHR ''}'' # ''   '')])) = (Some q, err)
          \<and> map eraseProperties (childrenOf q) = [])"
proof -
  have h1: "nth_opt (childrenOf (Element ''div'' (Some [])
       [Text (CHR ''{'' # ''margin: 10px;'' @ CHR ''}'' # ''   '')])) 0
     = Some (Text (CHR ''{'' # ''margin: 10px;'' @ CHR ''}'' # ''   ''))"
    by (simp add: nth_opt_def)
  have h2: "CHR ''}'' \<notin> set ''margin: 10px;''" by simp
  have t1: "trim ''   '' = []" by code_simp
  have c: "onVisit (Some 0) (Some (Element ''div'' (Some [])
       [Text (CHR ''{'' # ''margin: 10px;'' @ CHR ''}'' # ''   '')]))
     = (Some (Element ''div'' (Some [(''style'', PStr ''margin: 10px;'')]) []), None)"
    by code_simp
  show ?thesis
    using h1 h2 c onVisit_text_pruned [OF h1 h2]
    by (simp add: t1)
qed

theorem onVisit_empty_braces_witness:
  "nth_opt (childrenOf (Element ''p'' (Some [(''style'', PStr ''margin: 10px;'')])
       [Text (CHR ''{'' # [] @ CHR ''}'' # ''Some text here'')])) 0
     = Some (Text (CHR ''{'' # [] @ CHR ''}'' # ''Some text here''))
   \<and> CHR ''}'' \<notin> set []
   \<and> trim [] = []
   \<and> onVisit (Some 0) (Some (Element ''p'' (Some [(''style'', PStr ''margin: 10px;'')])
       [Text (CHR ''{'' # [] @ CHR ''}'' # ''Some text here'')]))
     = (Some (Element ''p'' (Some [(''style'', PStr [])]) [Text ''Some text here'']), None)
   \<and> (\<exists>q. onVisit (Some 0) (Some (Element ''p'' (Some [(''style'', PStr ''margin: 10px;'')])
                [Text (CHR ''{'' # [] @ CHR ''}'' # ''Some text here'')])) = (Some q, None)
          \<and> q \<noteq> Element ''p'' (Some [(''style'', PStr ''margin: 10px;'')])
                     [Text (CHR ''{'' # [] @ CHR ''}'' # ''Some text here'')])"
proof -
  have h1: "nth_opt (childrenOf (Element ''p'' (Some [(''style'', PStr ''margin: 10px;'')])
       [Text (CHR ''{'' # [] @ CHR ''}'' # ''Some text here'')])) 0
     = Some (Text (CHR ''{'' # [] @ CHR ''}'' # ''Some text here''))"
    by (simp add: nth_opt_def)
  have h2: "CHR ''}'' \<notin> set []" by simp
  have h3: "trim [] = []" by (simp add: trim_def)
  have c: "onVisit (Some 0) (Some (Element ''p'' (Some [(''style'', PStr ''margin: 10px;'')])
       [Text (CHR ''{'' # [] @ CHR ''}'' # ''Some text here'')]))
     = (Some (Element ''p'' (Some [(''style'', PStr [])]) [Text ''Some text here'']), None)"
    by code_simp
  from onVisit_empty_braces [OF h1 h2 h3]
  have "\<exists>q. onVisit (Some 0) (Some (Element ''p'' (Some [(''style'', PStr ''margin: 10px;'')])
                [Text (CHR ''{'' # [] @ CHR ''}'' # ''Some text here'')])) = (Some q, None)
          \<and> q \<noteq> Element ''p'' (Some [(''style'', PStr ''margin: 10px;'')])
                     [Text (CHR ''{'' # [] @ CHR ''}'' # ''Some text here'')]"
    by blast
  with h1 h2 h3 c show ?thesis by (intro conjI)
qed

section \<open>Properties of the token classifier\<close>

lemma join_Cons: "join sep (x # xs) = x @ concat (map (\<lambda>y. sep @ y) xs)"
  by (induction xs arbitrary: x) auto

lemma startsNew_absorbable: "startsNew t \<longleftrightarrow> \<not> absorbable t"
  by (auto simp: startsNew_def absorbable_def)

lemma absorb_takeWhile:
  "absorb d ts = (d @ concat (map (\<lambda>y. '' '' @ y) (takeWhile absorbable ts)), dropWhile absorbable ts)"
  by (induction ts arbitrary: d) (auto simp: startsNew_absorbable)

lemma endsWith_last: "endsWith c s \<longleftrightarrow> s \<noteq> [] \<and> last s = c"
  by (cases s rule: rev_cases) (auto simp: endsWith_def)

lemma finishDeclaration_withSemicolon: "finishDeclaration d = withSemicolon (trim d)"
  by (simp add: finishDeclaration_def withSemicolon_def endsWith_last Let_def)

text \<open>
  Claim C5. At a token with a colon that starts neither a class nor an id, the
  classifier starts a CSS declaration: the declaration is that token and every following
  token, joined by single spaces, up to the first following token that starts with a
  dot or a hash, or is an attribute token, or has a colon. The declaration is trimmed,
  gets a semicolon exactly when it does not already end with one, and goes to the end of
  the list of declarations; the classifier goes on at the first token not absorbed.
\<close>

theorem classify_declaration:
  assumes "\<not> startsWith (CHR ''.'') token" and "\<not> startsWith (CHR ''#'') token"
    and "includesChar (CHR '':'') token"
  shows "classify (token # rest) result cssProperties =
     classify (dropWhile absorbable rest) result
       (cssProperties @ [withSemicolon (trim (join '' '' (token # takeWhile absorbable rest)))])"
  using assms
  by (simp add: absorb_takeWhile finishDeclaration_withSemicolon join_Cons)

theorem classify_declaration_witness:
  "\<not> startsWith (CHR ''.'') ''border:'' \<and> \<not> startsWith (CHR ''#'') ''border:''
   \<and> includesChar (CHR '':'') ''border:''
   \<and> classify [''border:'', ''1px'', ''solid'', ''black'', ''.box'', ''margin:'', ''0;''] emptyResult []
     = (\<lparr>classes = [''box''], id' = None, attributes = []\<rparr>,
        [''border: 1px solid black;'', ''margin: 0;''])"
proof -
  have h1: "\<not> startsWith (CHR ''.'') ''border:''" by (simp add: startsWith_def)
  have h2: "\<not> startsWith (CHR ''#'') ''border:''" by (simp add: startsWith_def)
  have h3: "includesChar (CHR '':'') ''border:''" by (simp add: includesChar_def)
  have a: "takeWhile absorbable [''1px'', ''solid'', ''black'', ''.box'', ''margin:'', ''0;'']
           = [''1px'', ''solid'', ''black'']" by code_simp
  have b: "dropWhile absorbable [''1px'', ''solid'', ''black'', ''.box'', ''margin:'', ''0;'']
           = [''.box'', ''margin:'', ''0;'']" by code_simp
  have c: "withSemicolon (trim (join '' '' [''border:'', ''1px'', ''solid'', ''black'']))
           = ''border: 1px solid black;''" by code_simp
  have d: "classify [''.box'', ''margin:'', ''0;''] emptyResult [''border: 1px solid black;'']
     = (\<lparr>classes = [''box''], id' = None, attributes = []\<rparr>,
        [''border: 1px solid black;'', ''margin: 0;''])" by code_simp
  from classify_declaration [OF h1 h2 h3, of "[''1px'', ''solid'', ''black'', ''.box'', ''margin:'', ''0;'']"
        emptyResult "[]"]
  have e: "classify [''border:'', ''1px'', ''solid'', ''black'', ''.box'', ''margin:'', ''0;''] emptyResult []
     = classify [''.box'', ''margin:'', ''0;''] emptyResult [''border: 1px solid black;'']"
    by (simp only: a b c append_Nil)
  from h1 h2 h3 e d show ?thesis by (simp only: simp_thms)
qed












section \<open>Properties of the attribute merger\<close>

lemma applyEntries_other:
  "k \<notin> fst ` set entries \<Longrightarrow> map_of (fst (applyEntries props entries)) k = map_of props k"
proof (induction entries arbitrary: props)
  case Nil
  show ?case by simp
next
  case (Cons e entries)
  obtain key v where e: "e = (key, v)" by (cases e)
  with Cons.prems have ne: "k \<noteq> key" and rest: "k \<notin> fst ` set entries" by auto
  show ?case
    using Cons.IH [OF rest] ne unfolding e
    by (auto simp: update_conv' split: sum.splits)
qed

lemma applyEntries_no_style:
  "''style'' \<notin> fst ` set entries \<Longrightarrow> snd (applyEntries props entries) = None"
proof (induction entries arbitrary: props)
  case Nil
  show ?case by simp
next
  case (Cons e entries)
  obtain key v where e: "e = (key, v)" by (cases e)
  with Cons.prems have ne: "key \<noteq> ''style''" and rest: "''style'' \<notin> fst ` set entries" by auto
  show ?case using Cons.IH [OF rest] ne unfolding e by simp
qed

lemma applyEntries_style:
  assumes "distinct (map fst entries)" and "map_of entries ''style'' = Some v"
    and "existingStyleOf (map_of props ''style'') = Inr existing"
  shows "snd (applyEntries props entries) = None
         \<and> map_of (fst (applyEntries props entries)) ''style''
           = Some (PStr (existing @ separator existing @ v))"
  using assms
proof (induction entries arbitrary: props)
  case Nil
  then show ?case by simp
next
  case (Cons e entries)
  obtain key w where e: "e = (key, w)" by (cases e)
  show ?case
  proof (cases "key = ''style''")
    case True
    with Cons.prems e have w: "w = v" and rest: "''style'' \<notin> fst ` set entries" by auto
    let ?props = "AList.update ''style'' (PStr (existing @ separator existing @ v)) props"
    have "applyEntries props (e # entries) = applyEntries ?props entries"
      using True Cons.prems(3) unfolding e w by simp
    then show ?thesis
      using applyEntries_no_style [OF rest, of ?props] applyEntries_other [OF rest, of ?props]
      by (simp add: update_conv')
  next
    case False
    let ?props = "AList.update key (PStr w) props"
    have st: "existingStyleOf (map_of ?props ''style'') = Inr existing"
      using False Cons.prems(3) by (simp add: update_conv')
    have "distinct (map fst entries)" and "map_of entries ''style'' = Some v"
      using Cons.prems False unfolding e by auto
    from Cons.IH [OF this st] show ?thesis using False unfolding e by simp
  qed
qed

lemma map_of_applyClasses: "k \<noteq> ''className'' \<Longrightarrow> map_of (applyClasses props cls) k = map_of props k"
  by (simp add: applyClasses_def update_conv')

lemma map_of_applyId: "k \<noteq> ''id'' \<Longrightarrow> map_of (applyId props i) k = map_of props k"
  by (simp add: applyId_def update_conv' split: option.splits)

lemma applyAttributes_Element:
  "applyAttributes (Element t ps cs) attrs =
     (Element t (Some (fst (applyEntries
        (applyId (applyClasses (case ps of None \<Rightarrow> [] | Some q \<Rightarrow> q) (classes attrs)) (id' attrs))
        (attributes attrs)))) cs,
      snd (applyEntries
        (applyId (applyClasses (case ps of None \<Rightarrow> [] | Some q \<Rightarrow> q) (classes attrs)) (id' attrs))
        (attributes attrs)))"
  by (simp add: applyAttributes_def Let_def split: prod.splits)

lemma separator_words:
  "separator existing =
     (if existing \<noteq> [] \<and> last existing \<noteq> CHR '';'' then ''; ''
      else if existing \<noteq> [] then '' '' else [])"
  by (auto simp: separator_def endsWith_last)

text \<open>
  Claim C3. When the parsed annotation has a style and the existing style of the target
  is a string, or is absent or another falsy value and so read as the empty string,
  the merge does not throw and stores the existing style, a separator and the new
  value: the separator is a semicolon and a space after a non-empty style that does not
  end with a semicolon, a space after a non-empty style that does, and nothing after an
  empty one. The existing style is a prefix of the result, so it is never lost.
\<close>

theorem applyAttributes_style_merge:
  assumes "distinct (map fst (attributes attrs))"
    and "map_of (attributes attrs) ''style'' = Some v"
    and "existingStyleOf (map_of (case ps of None \<Rightarrow> [] | Some q \<Rightarrow> q) ''style'') = Inr existing"
  shows "\<exists>ps'. applyAttributes (Element t ps cs) attrs = (Element t (Some ps') cs, None)
           \<and> map_of ps' ''style''
             = Some (PStr (existing
                  @ (if existing \<noteq> [] \<and> last existing \<noteq> CHR '';'' then ''; ''
                     else if existing \<noteq> [] then '' '' else [])
                  @ v))"
proof -
  let ?props = "applyId (applyClasses (case ps of None \<Rightarrow> [] | Some q \<Rightarrow> q) (classes attrs)) (id' attrs)"
  have "map_of ?props ''style'' = map_of (case ps of None \<Rightarrow> [] | Some q \<Rightarrow> q) ''style''"
    by (simp add: map_of_applyId map_of_applyClasses)
  with assms(3) have "existingStyleOf (map_of ?props ''style'') = Inr existing" by simp
  from applyEntries_style [OF assms(1,2) this] show ?thesis
    unfolding applyAttributes_Element separator_words by simp
qed


theorem applyAttributes_style_merge_witness:
  "distinct (map fst (attributes (parseAttributes ''color: red; font-size: 14px;'')))
   \<and> map_of (attributes (parseAttributes ''color: red; font-size: 14px;'')) ''style''
       = Some ''color: red; font-size: 14px;''
   \<and> existingStyleOf (map_of (case Some [(''style'', PStr ''margin: 10px'')] of
                                 None \<Rightarrow> [] | Some q \<Rightarrow> q) ''style'') = Inr ''margin: 10px''
   \<and> (\<exists>ps'. applyAttributes (Element ''p'' (Some [(''style'', PStr ''margin: 10px'')]) [])
                (parseAttributes ''color: red; font-size: 14px;'')
              = (Element ''p'' (Some ps') [], None)
            \<and> map_of ps' ''style'' = Some (PStr ''margin: 10px; color: red; font-size: 14px;''))"
proof -
  have pa: "parseAttributes ''color: red; font-size: 14px;''
            = \<lparr>classes = [], id' = None, attributes = [(''style'', ''color: red; font-size: 14px;'')]\<rparr>"
    by code_simp
  have h1: "distinct (map fst (attributes (parseAttributes ''color: red; font-size: 14px;'')))"
    by (simp add: pa)
  have h2: "map_of (attributes (parseAttributes ''color: red; font-size: 14px;'')) ''style''
       = Some ''color: red; font-size: 14px;''"
    by (simp add: pa)
  have h3: "existingStyleOf (map_of (case Some [(''style'', PStr ''margin: 10px'')] of
                                 None \<Rightarrow> [] | Some q \<Rightarrow> q) ''style'') = Inr ''margin: 10px''"
    by (simp add: existingStyleOf_def)
  from applyAttributes_style_merge [OF h1 h2 h3, of "''p''" "[]"]
  have "\<exists>ps'. applyAttributes (Element ''p'' (Some [(''style'', PStr ''margin: 10px'')]) [])
                (parseAttributes ''color: red; font-size: 14px;'')
              = (Element ''p'' (Some ps') [], None)
            \<and> map_of ps' ''style'' = Some (PStr ''margin: 10px; color: red; font-size: 14px;'')"
    by simp
  with h1 h2 h3 show ?thesis by (simp only: simp_thms)
qed

text \<open>The earlier revision replaces the style of the target.\<close>

lemma onVisit_v1_overwrites_style:
  "onVisit_v1 (Some 0) (Some (Element ''p'' (Some [(''style'', PStr ''margin: 10px;'')])
       [Text ''{color: red; font-size: 14px;}Text content'']))
     = Some (Element ''p'' (Some [(''style'', PStr ''color: red; font-size: 14px;'')])
         [Text ''Text content''])
   \<and> onVisit (Some 0) (Some (Element ''p'' (Some [(''style'', PStr ''margin: 10px;'')])
       [Text ''{color: red; font-size: 14px;}Text content'']))
     = (Some (Element ''p'' (Some [(''style'', PStr ''margin: 10px; color: red; font-size: 14px;'')])
         [Text ''Text content'']), None)"
  by code_simp

lemma split_on_split_where: "split_on c s = split_where (\<lambda>x. x = c) s"
  by (induction s) auto

lemma existingClassArray_classList:
  "existingClassArray existing = classList (\<lambda>c. c = CHR '' '') existing"
  by (simp add: existingClassArray_def classList_def split_on_split_where
      split: option.splits propval.splits)

lemma foldl_setAdd:
  "foldl setAdd acc xs = acc @ dedupFirst (filter (\<lambda>y. y \<notin> set acc) xs)"
proof (induction xs arbitrary: acc)
  case Nil
  show ?case by simp
next
  case (Cons x xs)
  show ?case
  proof (cases "x \<in> set acc")
    case True
    then show ?thesis using Cons.IH [of acc] by (simp add: setAdd_def)
  next
    case False
    have "filter (\<lambda>y. y \<notin> set (acc @ [x])) xs = filter (\<lambda>y. y \<noteq> x) (filter (\<lambda>y. y \<notin> set acc) xs)"
      by (induction xs) auto
    then show ?thesis using False Cons.IH [of "acc @ [x]"] by (simp add: setAdd_def)
  qed
qed

lemma newSet_dedupFirst: "newSet xs = dedupFirst xs"
  by (simp add: newSet_def foldl_setAdd)

text \<open>
  Claim C4, as the code has it. When the annotation has no attribute named
  \<^verbatim>\<open>className\<close>, the class value after the merge is: for a non-empty list of parsed
  classes, the existing classes (none when absent or neither array nor string; an array
  as it is; a string split at every space character, U+0020 and no other white space,
  empty pieces dropped) followed by the parsed classes, without duplicates, each class at
  the place of its first occurrence, joined by single spaces; for an empty list of
  parsed classes, the class value as it was.
\<close>

theorem applyAttributes_class_merge:
  assumes "map_of (attributes attrs) ''className'' = None"
  shows "map_of (case propertiesOf (fst (applyAttributes (Element t ps cs) attrs)) of
                   None \<Rightarrow> [] | Some q \<Rightarrow> q) ''className''
         = (if classes attrs = []
            then map_of (case ps of None \<Rightarrow> [] | Some q \<Rightarrow> q) ''className''
            else Some (PStr (mergedClasses (\<lambda>c. c = CHR '' '')
                               (map_of (case ps of None \<Rightarrow> [] | Some q \<Rightarrow> q) ''className'')
                               (classes attrs))))"
proof -
  from assms have k: "''className'' \<notin> fst ` set (attributes attrs)"
    by (simp add: map_of_eq_None_iff)
  show ?thesis
    unfolding applyAttributes_Element
    by (simp add: applyEntries_other [OF k] map_of_applyId applyClasses_def update_conv'
        mergedClasses_def newSet_dedupFirst existingClassArray_classList)
qed

theorem applyAttributes_class_merge_witness:
  "map_of (attributes (parseAttributes ''.new .x'')) ''className'' = None
   \<and> classes (parseAttributes ''.new .x'') = [''new'', ''x'']
   \<and> map_of (case propertiesOf (fst (applyAttributes
                   (Element ''div'' (Some [(''className'', PStr ''existing'')]) [])
                   (parseAttributes ''.new .x''))) of None \<Rightarrow> [] | Some q \<Rightarrow> q) ''className''
     = Some (PStr ''existing new x'')"
proof -
  have pa: "parseAttributes ''.new .x'' = \<lparr>classes = [''new'', ''x''], id' = None, attributes = []\<rparr>"
    by code_simp
  have h1: "map_of (attributes (parseAttributes ''.new .x'')) ''className'' = None"
    by (simp add: pa)
  have m: "mergedClasses (\<lambda>c. c = CHR '' '') (Some (PStr ''existing'')) [''new'', ''x'']
           = ''existing new x''"
    by code_simp
  from applyAttributes_class_merge [OF h1, of "''div''" "Some [(''className'', PStr ''existing'')]" "[]"]
  have "map_of (case propertiesOf (fst (applyAttributes
                   (Element ''div'' (Some [(''className'', PStr ''existing'')]) [])
                   (parseAttributes ''.new .x''))) of None \<Rightarrow> [] | Some q \<Rightarrow> q) ''className''
     = Some (PStr ''existing new x'')"
    by (simp add: pa m)
  with h1 pa show ?thesis by simp
qed

text \<open>An existing class string with a tab in it is one class for the code and two for
  a split on white space.\<close>

theorem applyAttributes_class_merge_counterexample:
  "applyAttributes (Element ''p'' (Some [(''className'', PStr (''a'' @ [CHR 0x09] @ ''b''))]) [])
       (parseAttributes ''.b'')
     = (Element ''p'' (Some [(''className'', PStr (''a'' @ [CHR 0x09] @ ''b b''))]) [], None)
   \<and> mergedClasses is_ws (Some (PStr (''a'' @ [CHR 0x09] @ ''b''))) (classes (parseAttributes ''.b''))
     = ''a b''
   \<and> map_of (case propertiesOf (fst (applyAttributes
                   (Element ''p'' (Some [(''className'', PStr (''a'' @ [CHR 0x09] @ ''b''))]) [])
                   (parseAttributes ''.b''))) of None \<Rightarrow> [] | Some q \<Rightarrow> q) ''className''
     \<noteq> Some (PStr (mergedClasses is_ws (Some (PStr (''a'' @ [CHR 0x09] @ ''b'')))
                       (classes (parseAttributes ''.b''))))"
  by code_simp

section \<open>The shape of the style value\<close>

























end
